theory Spec2Isabelle
  imports Complex_Main
begin

section \<open>Neyman-Pearson feature selection (npfs.py)\<close>

text \<open>
  A shallow embedding of the class \<open>npfs\<close> of \<open>src/npfs.py\<close>: the constructor, \<open>fit\<close>,
  \<open>__check_data\<close>, \<open>boot_iteration\<close> and the module-level \<open>__call__\<close>.

  Conventions of the model.
  \<^item> Python floats are exact rationals, extended by the IEEE special values that numpy
    produces when it divides by zero (\<open>fval\<close>); rounding is not modelled.
  \<^item> Exceptions are values of the type \<open>error\<close>; a function that can raise returns
    \<open>error + 'a\<close>.
  \<^item> numpy arrays that the caller can alias (data and labels) live in an explicit heap;
    the matrix \<open>Z\<close> is created by \<open>fit\<close> itself and is carried as a value.
  \<^item> The global generator of \<open>numpy.random\<close> is a state of type \<open>'g\<close>; the function
    \<open>randint\<close> that draws from it is a parameter of the model.
  \<^item> The library \<open>feast\<close> is a parameter: the table that maps the names of its
    selection functions to these functions. Attributes of the module that are not
    functions are not modelled.
\<close>

subsection \<open>Errors and values\<close>

datatype error =
    DataNotNdarray
  | LabelsNotNdarray
  | LengthMismatch
  | AttributeError string
  | ImportError
  | RaiseNonException
  | PoolValueError
  | IndexError
  | ZeroDivisionError
  | InvalidProbability
  | OracleError string

text \<open>
  \<open>DataNotNdarray\<close>, \<open>LabelsNotNdarray\<close> and \<open>LengthMismatch\<close> are the three exceptions of
  \<open>__check_data\<close>; \<open>AttributeError\<close> is what \<open>getattr\<close> and a read of an attribute that
  was never assigned raise; \<open>RaiseNonException\<close> is the TypeError of the statement
  \<open>raise("Method does not exist in FEAST")\<close>, whose operand is a string and not an
  exception; \<open>PoolValueError\<close> is the ValueError of \<open>Pool(processes=0)\<close>;
  \<open>InvalidProbability\<close> is \<open>ValueError("p+beta > 1 -> Invalid probability")\<close>;
  \<open>OracleError\<close> is any exception raised inside the selection function.
\<close>

datatype fval = Fin rat | PInf | NInf | NaN

datatype ndarray = Arr1 "rat list" | Arr2 nat "rat list list"

text \<open>
  \<open>Arr1 xs\<close> is a one-dimensional array; \<open>Arr2 c rows\<close> is a two-dimensional array with
  \<open>c\<close> columns (kept apart from the rows, so that an array without rows has a shape).
  Arrays of other ranks are not modelled.
\<close>

datatype pyobj = Ndarray nat | NotArray

text \<open>
  An argument of \<open>fit\<close> is a reference to an ndarray, by its address in the heap, or
  any other Python object.
\<close>

type_synonym selector = "ndarray \<Rightarrow> ndarray \<Rightarrow> nat \<Rightarrow> (error + int list) \<times> ndarray \<times> ndarray"

text \<open>
  A selection function of \<open>feast\<close> receives the data sample, the label sample and
  \<open>n_select\<close>; it returns feature indices or raises, and it may write into the two
  arrays it was given: the second and third components are their contents afterwards.
\<close>

record 'g world =
  rng :: 'g
  heap :: "nat \<Rightarrow> ndarray"
  next_addr :: nat
  n_samples :: nat
  n_calls :: nat

text \<open>
  \<open>rng\<close> is the state of numpy's global generator in the process that runs \<open>fit\<close>;
  \<open>heap\<close> holds the arrays, \<open>next_addr\<close> is the first address not yet allocated;
  \<open>n_samples\<close> counts the calls of \<open>np.random.randint\<close> and \<open>n_calls\<close> the calls of
  the selection function, in this process and in the workers of a pool.
\<close>

record npfs =
  fs_method :: string
  n_select :: nat
  n_bootstraps :: nat
  alpha :: rat
  beta :: rat
  selected_features :: "nat list"
  parallel :: "nat option"
  min_improv :: rat
  early_stopping :: bool
  n_observations :: "nat option"
  n_features :: "nat option"
  method_fn :: "selector option"
  data :: "nat option"
  labels :: "nat option"
  run_time :: "nat option"
  Bernoulli_matrix :: "nat list list option"

text \<open>
  The attributes from \<open>n_observations\<close> on do not exist on a new object (\<open>None\<close>);
  \<open>fit\<close> creates them. \<open>method_fn\<close> is the attribute \<open>self.method\<close>.
\<close>

definition npfs_init :: "string \<Rightarrow> nat \<Rightarrow> nat \<Rightarrow> rat \<Rightarrow> rat \<Rightarrow> nat option \<Rightarrow> rat \<Rightarrow> npfs" where
  "npfs_init fs ns nb a b par mi =
     \<lparr>fs_method = fs, n_select = ns, n_bootstraps = nb, alpha = a, beta = b,
      selected_features = [], parallel = par, min_improv = mi,
      early_stopping = (mi \<noteq> 0),
      n_observations = None, n_features = None, method_fn = None, data = None,
      labels = None, run_time = None, Bernoulli_matrix = None\<rparr>"

subsection \<open>numpy: arrays\<close>

fun len :: "ndarray \<Rightarrow> nat" where
  "len (Arr1 xs) = length xs"
| "len (Arr2 c rows) = length rows"

fun len_transpose :: "ndarray \<Rightarrow> nat" where
  "len_transpose (Arr1 xs) = length xs"
| "len_transpose (Arr2 c rows) = c"

fun take_idx :: "'a list \<Rightarrow> nat list \<Rightarrow> error + 'a list" where
  "take_idx xs [] = Inr []"
| "take_idx xs (i # is) =
     (if i < length xs
      then (case take_idx xs is of Inl e \<Rightarrow> Inl e | Inr ys \<Rightarrow> Inr (xs ! i # ys))
      else Inl IndexError)"

fun index_rows :: "ndarray \<Rightarrow> nat list \<Rightarrow> error + ndarray" where
  "index_rows (Arr1 xs) idx = (case take_idx xs idx of Inl e \<Rightarrow> Inl e | Inr ys \<Rightarrow> Inr (Arr1 ys))"
| "index_rows (Arr2 c rows) idx =
     (case take_idx rows idx of Inl e \<Rightarrow> Inl e | Inr ys \<Rightarrow> Inr (Arr2 c ys))"

definition alloc :: "ndarray \<Rightarrow> 'g world \<Rightarrow> nat \<times> 'g world" where
  "alloc a w = (next_addr w, w\<lparr>heap := (heap w)(next_addr w := a), next_addr := Suc (next_addr w)\<rparr>)"

definition zeros :: "nat \<Rightarrow> nat \<Rightarrow> nat list list" where
  "zeros r c = replicate r (replicate c 0)"

fun norm_indices :: "nat \<Rightarrow> int list \<Rightarrow> error + nat list" where
  "norm_indices n [] = Inr []"
| "norm_indices n (i # is) =
     (if 0 \<le> i \<and> i < int n
      then (case norm_indices n is of Inl e \<Rightarrow> Inl e | Inr js \<Rightarrow> Inr (nat i # js))
      else if - int n \<le> i \<and> i < 0
      then (case norm_indices n is of Inl e \<Rightarrow> Inl e | Inr js \<Rightarrow> Inr (nat (i + int n) # js))
      else Inl IndexError)"

definition mark :: "nat list list \<Rightarrow> int list \<Rightarrow> nat \<Rightarrow> error + nat list list" where
  "mark Z sf b =
     (case norm_indices (length Z) sf of
        Inl e \<Rightarrow> Inl e
      | Inr js \<Rightarrow> Inr (fold (\<lambda>j Z'. Z'[j := (Z' ! j)[b := 1]]) js Z))"

text \<open>
  \<open>mark Z sf b\<close> is the assignment \<open>Z[sf, b] = 1\<close>: an index array selects rows, a
  negative index counts from the end, and an index out of range raises IndexError
  before anything is written.
\<close>

definition row_sums :: "nat list list \<Rightarrow> nat list" where
  "row_sums Z = map sum_list Z"

subsection \<open>numpy: floating-point division by zero, mean, comparison\<close>

definition fdiv_count :: "nat \<Rightarrow> nat \<Rightarrow> fval" where
  "fdiv_count s b =
     (if b = 0 then (if s = 0 then NaN else PInf) else Fin (of_nat s / of_nat b))"

fun fsub :: "fval \<Rightarrow> fval \<Rightarrow> fval" where
  "fsub NaN y = NaN"
| "fsub x NaN = NaN"
| "fsub (Fin a) (Fin b) = Fin (a - b)"
| "fsub (Fin a) PInf = NInf"
| "fsub (Fin a) NInf = PInf"
| "fsub PInf PInf = NaN"
| "fsub PInf y = PInf"
| "fsub NInf NInf = NaN"
| "fsub NInf y = NInf"

fun fabs :: "fval \<Rightarrow> fval" where
  "fabs (Fin a) = Fin \<bar>a\<bar>"
| "fabs PInf = PInf"
| "fabs NInf = PInf"
| "fabs NaN = NaN"

fun fadd :: "fval \<Rightarrow> fval \<Rightarrow> fval" where
  "fadd NaN y = NaN"
| "fadd x NaN = NaN"
| "fadd (Fin a) (Fin b) = Fin (a + b)"
| "fadd (Fin a) y = y"
| "fadd PInf NInf = NaN"
| "fadd PInf y = PInf"
| "fadd NInf PInf = NaN"
| "fadd NInf y = NInf"

fun fscale :: "fval \<Rightarrow> nat \<Rightarrow> fval" where
  "fscale (Fin a) n = Fin (a / of_nat n)"
| "fscale x n = x"

definition fmean :: "fval list \<Rightarrow> fval" where
  "fmean xs = (if xs = [] then NaN else fscale (foldr fadd xs (Fin 0)) (length xs))"

fun flt :: "fval \<Rightarrow> fval \<Rightarrow> bool" where
  "flt NaN y = False"
| "flt x NaN = False"
| "flt (Fin a) (Fin b) = (a < b)"
| "flt (Fin a) PInf = True"
| "flt (Fin a) NInf = False"
| "flt PInf y = False"
| "flt NInf NInf = False"
| "flt NInf y = True"

text \<open>
  \<open>fdiv_count s b\<close> is one component of \<open>Z.sum(axis=1)/b\<close>: numpy does not raise on a
  zero divisor, it gives \<open>inf\<close> for a positive count and \<open>nan\<close> for \<open>0/0\<close>.
  \<open>fmean\<close> is \<open>ndarray.mean\<close> (\<open>nan\<close> on an empty array); \<open>flt\<close> is \<open><\<close>, false
  whenever an operand is \<open>nan\<close>.
\<close>

definition running_freq :: "nat list list \<Rightarrow> nat \<Rightarrow> fval list" where
  "running_freq Z b = map (\<lambda>s. fdiv_count s b) (row_sums Z)"

definition mean_abs_change :: "fval list \<Rightarrow> fval list \<Rightarrow> fval" where
  "mean_abs_change p1 p1_old = fmean (map (\<lambda>(x, y). fabs (fsub x y)) (zip p1 p1_old))"

subsection \<open>scipy: the binomial quantile\<close>

definition binom_pmf :: "nat \<Rightarrow> rat \<Rightarrow> nat \<Rightarrow> rat" where
  "binom_pmf n p k = of_nat (n choose k) * p ^ k * (1 - p) ^ (n - k)"

fun binom_cdf :: "nat \<Rightarrow> rat \<Rightarrow> nat \<Rightarrow> rat" where
  "binom_cdf n p 0 = binom_pmf n p 0"
| "binom_cdf n p (Suc k) = binom_cdf n p k + binom_pmf n p (Suc k)"

fun ppf_from :: "rat \<Rightarrow> nat \<Rightarrow> rat \<Rightarrow> nat \<Rightarrow> nat \<Rightarrow> nat" where
  "ppf_from q n p 0 k = k"
| "ppf_from q n p (Suc f) k = (if q \<le> binom_cdf n p k then k else ppf_from q n p f (Suc k))"

definition binom_ppf :: "rat \<Rightarrow> nat \<Rightarrow> rat \<Rightarrow> fval" where
  "binom_ppf q n p =
     (if q = 0 then Fin (- 1)
      else if 0 \<le> p \<and> p \<le> 1
      then (if 0 < q \<and> q < 1 then Fin (of_nat (ppf_from q n p n 0))
            else if q = 1 then Fin (of_nat n) else NaN)
      else NaN)"

text \<open>
  Modelled from the spec: \<open>scipy.stats.binom.ppf\<close> is a library function outside the
  repository. Following section 4.7 of the specification, \<open>binom_ppf q n p\<close> is the
  smallest count \<open>k\<close> with \<open>q \<le> P(X \<le> k)\<close> for \<open>X\<close> binomial with \<open>n\<close> trials and
  success probability \<open>p\<close>, in exact arithmetic: \<open>ppf_from\<close> searches the counts
  \<open>0, 1, ...\<close> and stops at \<open>n\<close>. At the ends it follows scipy: \<open>-1\<close> for \<open>q = 0\<close>,
  \<open>n\<close> for \<open>q = 1\<close>, \<open>nan\<close> for a probability outside \<open>[0, 1]\<close>.
\<close>

subsection \<open>\<open>__check_data\<close>\<close>

definition check_data :: "pyobj \<Rightarrow> pyobj \<Rightarrow> 'g world \<Rightarrow> (error + nat \<times> nat) \<times> 'g world" where
  "check_data dat lab w =
     (case dat of
        NotArray \<Rightarrow> (Inl DataNotNdarray, w)
      | Ndarray a \<Rightarrow>
         (case lab of
            NotArray \<Rightarrow> (Inl LabelsNotNdarray, w)
          | Ndarray b \<Rightarrow>
             if len (heap w a) \<noteq> len (heap w b) then (Inl LengthMismatch, w)
             else let (a', w1) = alloc (heap w a) w;
                      (b', w2) = alloc (heap w1 b) w1
                  in (Inr (a', b'), w2)))"

text \<open>
  \<open>1.0*data\<close> and \<open>1.0*labels\<close> create two new arrays with the same contents; the
  function returns their addresses.
\<close>

subsection \<open>\<open>boot_iteration\<close>\<close>

definition attr :: "string \<Rightarrow> 'a option \<Rightarrow> error + 'a" where
  "attr name v = (case v of None \<Rightarrow> Inl (AttributeError name) | Some x \<Rightarrow> Inr x)"

definition boot_iteration ::
  "('g \<Rightarrow> nat \<Rightarrow> nat list \<times> 'g) \<Rightarrow> npfs \<Rightarrow> 'g world \<Rightarrow> (error + int list) \<times> 'g world" where
  "boot_iteration randint self w =
     (case attr ''n_observations'' (n_observations self) of
        Inl e \<Rightarrow> (Inl e, w)
      | Inr n \<Rightarrow>
         let (idx, g') = randint (rng w) n;
             w1 = w\<lparr>rng := g', n_samples := Suc (n_samples w)\<rparr>
         in (case attr ''data'' (data self) of
               Inl e \<Rightarrow> (Inl e, w1)
             | Inr d \<Rightarrow>
                (case index_rows (heap w1 d) idx of
                   Inl e \<Rightarrow> (Inl e, w1)
                 | Inr data_sub \<Rightarrow>
                    let (da, w2) = alloc data_sub w1
                    in (case attr ''labels'' (labels self) of
                          Inl e \<Rightarrow> (Inl e, w2)
                        | Inr l \<Rightarrow>
                           (case index_rows (heap w2 l) idx of
                              Inl e \<Rightarrow> (Inl e, w2)
                            | Inr labels_sub \<Rightarrow>
                               let (la, w3) = alloc labels_sub w2
                               in (case attr ''method'' (method_fn self) of
                                     Inl e \<Rightarrow> (Inl e, w3)
                                   | Inr f \<Rightarrow>
                                      let (sf, data_sub', labels_sub') =
                                            f data_sub labels_sub (n_select self)
                                      in (sf, w3\<lparr>heap := (heap w3)(da := data_sub', la := labels_sub'),
                                                n_calls := Suc (n_calls w3)\<rparr>)))))))"

text \<open>
  One trial: \<open>randint\<close> draws \<open>n_observations\<close> row indices from the generator of the
  process, indexing with them creates two new arrays, and the selection function runs
  on these. The selection function can write into the two samples only. \<open>randint\<close>
  always returns a list of indices: a version of numpy that rejects the empty range of
  an empty data set is not modelled. An index outside the array raises IndexError.
\<close>

subsection \<open>The three ways of running the trials\<close>

fun seq_loop ::
  "('g \<Rightarrow> nat \<Rightarrow> nat list \<times> 'g) \<Rightarrow> npfs \<Rightarrow> nat list \<Rightarrow> nat list list \<Rightarrow> 'g world
     \<Rightarrow> (error + nat list list) \<times> 'g world" where
  "seq_loop randint self [] Z w = (Inr Z, w)"
| "seq_loop randint self (b # bs) Z w =
     (case boot_iteration randint self w of
        (Inl e, w') \<Rightarrow> (Inl e, w')
      | (Inr sf, w') \<Rightarrow>
         (case mark Z sf b of
            Inl e \<Rightarrow> (Inl e, w')
          | Inr Z' \<Rightarrow> seq_loop randint self bs Z' w'))"

text \<open>
  The loop \<open>for b in range(n_bootstraps)\<close> without early stopping, over the list of
  the values of \<open>b\<close> still to come.
\<close>

fun es_loop ::
  "('g \<Rightarrow> nat \<Rightarrow> nat list \<times> 'g) \<Rightarrow> npfs \<Rightarrow> nat list \<Rightarrow> nat list list \<Rightarrow> fval list \<Rightarrow> 'g world
     \<Rightarrow> (error + nat list list \<times> nat option) \<times> 'g world" where
  "es_loop randint self [] Z p1_old w = (Inr (Z, None), w)"
| "es_loop randint self (b # bs) Z p1_old w =
     (case boot_iteration randint self w of
        (Inl e, w') \<Rightarrow> (Inl e, w')
      | (Inr sf, w') \<Rightarrow>
         (case mark Z sf b of
            Inl e \<Rightarrow> (Inl e, w')
          | Inr Z' \<Rightarrow>
             let p1 = running_freq Z' b;
                 d = mean_abs_change p1 p1_old
             in if flt d (Fin (min_improv self)) then (Inr (Z', Some b), w')
                else es_loop randint self bs Z' p1 w'))"

text \<open>
  The loop with early stopping. The second component of the result is the value
  assigned to \<open>self.run_time\<close> when the loop leaves through \<open>break\<close>, and \<open>None\<close> when
  it runs to the end of the range.
\<close>

fun collect :: "(error + 'a) list \<Rightarrow> error + 'a list" where
  "collect [] = Inr []"
| "collect (Inl e # rs) = Inl e"
| "collect (Inr x # rs) = (case collect rs of Inl e \<Rightarrow> Inl e | Inr xs \<Rightarrow> Inr (x # xs))"

definition call :: "('g \<Rightarrow> nat \<Rightarrow> nat list \<times> 'g) \<Rightarrow> npfs \<Rightarrow> 'g world \<Rightarrow> (error + int list) \<times> 'g world" where
  "call randint obj w = boot_iteration randint obj w"

definition pool_map ::
  "('g \<Rightarrow> nat \<Rightarrow> nat list \<times> 'g) \<Rightarrow> (nat \<Rightarrow> 'g) \<Rightarrow> npfs \<Rightarrow> nat \<Rightarrow> 'g world
     \<Rightarrow> (error + int list list) \<times> 'g world" where
  "pool_map randint wstate self n w =
     (let rs = map (\<lambda>x. call randint self (w\<lparr>rng := wstate x\<rparr>)) [0..<n]
      in (collect (map fst rs),
          w\<lparr>n_samples := n_samples w + sum_list (map (\<lambda>(r, ww). n_samples ww - n_samples w) rs),
            n_calls := n_calls w + sum_list (map (\<lambda>(r, ww). n_calls ww - n_calls w) rs)\<rparr>))"

text \<open>
  \<open>pool.map(__call__, (self for x in range(n_bootstraps)))\<close>. Task \<open>x\<close> runs
  \<open>boot_iteration\<close> on a copy of the object, in a worker process: on a copy of the
  memory of the parent, and with the generator of that worker, which is in the state
  \<open>wstate x\<close> when the task starts. The program sets no seed anywhere, so \<open>wstate\<close> is a
  parameter: it is whatever the start method of the processes and the distribution of
  the tasks over the workers make it. The results come back in the order of the tasks;
  when tasks raise, the model reports the exception of the first of them. In the
  parent only the two counters change.
\<close>

fun assemble :: "int list list \<Rightarrow> nat \<Rightarrow> nat list list \<Rightarrow> error + nat list list" where
  "assemble [] x Z = Inr Z"
| "assemble (sf # sfs) x Z =
     (case mark Z sf x of Inl e \<Rightarrow> Inl e | Inr Z' \<Rightarrow> assemble sfs (Suc x) Z')"

text \<open>The loop \<open>for x in range(len(sfs)): Z[sfs[x], x] = 1\<close>, from column \<open>x\<close> on.\<close>

definition run_trials ::
  "('g \<Rightarrow> nat \<Rightarrow> nat list \<times> 'g) \<Rightarrow> (nat \<Rightarrow> 'g) \<Rightarrow> npfs \<Rightarrow> nat list list \<Rightarrow> 'g world
     \<Rightarrow> (error + nat list list) \<times> npfs \<times> 'g world" where
  "run_trials randint wstate self Z w =
     (case parallel self of
        None \<Rightarrow>
         if \<not> early_stopping self
         then (case seq_loop randint self [0..<n_bootstraps self] Z w of (r, w') \<Rightarrow> (r, self, w'))
         else (case attr ''n_features'' (n_features self) of
                 Inl e \<Rightarrow> (Inl e, self, w)
               | Inr nf \<Rightarrow>
                  (case es_loop randint self [0..<n_bootstraps self] Z (replicate nf (Fin 0)) w of
                     (Inl e, w') \<Rightarrow> (Inl e, self, w')
                   | (Inr (Z', None), w') \<Rightarrow> (Inr Z', self, w')
                   | (Inr (Z', Some b), w') \<Rightarrow> (Inr Z', self\<lparr>run_time := Some b\<rparr>, w')))
      | Some k \<Rightarrow>
         if k = 0 then (Inl PoolValueError, self, w)
         else (case pool_map randint wstate self (n_bootstraps self) w of
                 (Inl e, w') \<Rightarrow> (Inl e, self, w')
               | (Inr sfs, w') \<Rightarrow>
                  (case assemble sfs 0 Z of
                     Inl e \<Rightarrow> (Inl e, self, w')
                   | Inr Z' \<Rightarrow> (Inr Z', self, w'))))"

subsection \<open>The threshold and \<open>fit\<close>\<close>

definition null_prob :: "npfs \<Rightarrow> nat \<Rightarrow> rat" where
  "null_prob self nf = of_nat (n_select self) / of_nat nf + beta self"

definition threshold :: "npfs \<Rightarrow> error + fval" where
  "threshold self =
     (case attr ''n_features'' (n_features self) of
        Inl e \<Rightarrow> Inl e
      | Inr nf \<Rightarrow>
         if nf = 0 then Inl ZeroDivisionError
         else if null_prob self nf > 1 then Inl InvalidProbability
         else Inr (binom_ppf (1 - alpha self) (n_bootstraps self) (null_prob self nf)))"

text \<open>
  Lines 100 to 104: \<open>p\<close>, the test \<open>p > 1.0\<close> and \<open>delta\<close>. The division of a float by
  the integer \<open>n_features = 0\<close> raises ZeroDivisionError.
\<close>

definition select_features :: "nat list \<Rightarrow> fval \<Rightarrow> nat \<Rightarrow> nat list" where
  "select_features z delta nf = filter (\<lambda>k. flt delta (Fin (of_nat (z ! k)))) [0..<nf]"

definition getattr_feast :: "(string \<rightharpoonup> selector) \<Rightarrow> string \<Rightarrow> error + selector" where
  "getattr_feast lib name = (case lib name of None \<Rightarrow> Inl (AttributeError name) | Some f \<Rightarrow> Inr f)"

definition resolve :: "(string \<rightharpoonup> selector) \<Rightarrow> string \<Rightarrow> error + selector" where
  "resolve lib name =
     (case getattr_feast lib name of
        Inl e \<Rightarrow> if e = ImportError then Inl RaiseNonException else Inl e
      | Inr f \<Rightarrow> Inr f)"

text \<open>
  Lines 59 to 62: the handler of the \<open>try\<close> statement catches ImportError only, and its
  body raises a string. \<open>getattr\<close> raises AttributeError for a name that the module
  does not have, which the handler lets through.
\<close>

definition fit_prepare ::
  "(string \<rightharpoonup> selector) \<Rightarrow> npfs \<Rightarrow> pyobj \<Rightarrow> pyobj \<Rightarrow> 'g world
     \<Rightarrow> (error + npfs \<times> nat list list) \<times> 'g world" where
  "fit_prepare lib self dat lab w =
     (case check_data dat lab w of
        (Inl e, w1) \<Rightarrow> (Inl e, w1)
      | (Inr (d, l), w1) \<Rightarrow>
         (case resolve lib (fs_method self) of
            Inl e \<Rightarrow> (Inl e, w1)
          | Inr f \<Rightarrow>
             let self1 = self\<lparr>n_observations := Some (len (heap w1 d)),
                             n_features := Some (len_transpose (heap w1 d)),
                             method_fn := Some f\<rparr>;
                 Z = zeros (len_transpose (heap w1 d)) (n_bootstraps self1);
                 self2 = self1\<lparr>data := Some d, labels := Some l\<rparr>
             in (Inr (self2, Z), w1)))"

text \<open>
  Lines 58 to 72: validation, the resolution of the method, the attributes of the
  object and the matrix of zeros. The object is returned as the trials will see it.
\<close>

definition fit_finish :: "npfs \<Rightarrow> nat list list \<Rightarrow> error + nat list \<times> npfs" where
  "fit_finish self Z =
     (let z = row_sums Z
      in (case threshold self of
            Inl e \<Rightarrow> Inl e
          | Inr delta \<Rightarrow>
             (case attr ''n_features'' (n_features self) of
                Inl e \<Rightarrow> Inl e
              | Inr nf \<Rightarrow>
                 let sel = select_features z delta nf
                 in Inr (sel, self\<lparr>Bernoulli_matrix := Some Z, selected_features := sel\<rparr>))))"

text \<open>Lines 98 to 114: the counts, the threshold, the selection and the two attributes.\<close>

definition fit ::
  "(string \<rightharpoonup> selector) \<Rightarrow> ('g \<Rightarrow> nat \<Rightarrow> nat list \<times> 'g) \<Rightarrow> (nat \<Rightarrow> 'g) \<Rightarrow> npfs \<Rightarrow> pyobj \<Rightarrow> pyobj
     \<Rightarrow> 'g world \<Rightarrow> (error + nat list) \<times> npfs \<times> 'g world" where
  "fit lib randint wstate self dat lab w =
     (case fit_prepare lib self dat lab w of
        (Inl e, w1) \<Rightarrow> (Inl e, self, w1)
      | (Inr (self2, Z), w1) \<Rightarrow>
         (case run_trials randint wstate self2 Z w1 of
            (Inl e, self3, w2) \<Rightarrow> (Inl e, self3, w2)
          | (Inr Z', self3, w2) \<Rightarrow>
             (case fit_finish self3 Z' of
                Inl e \<Rightarrow> (Inl e, self3, w2)
              | Inr (sel, self4) \<Rightarrow> (Inr sel, self4, w2))))"

text \<open>
  \<open>fit\<close> returns the selected features or the exception, the object as the call
  leaves it, and the world. \<open>lib\<close> is the attribute table of \<open>feast\<close>, \<open>randint\<close> the
  drawing function of numpy, \<open>wstate\<close> the generator states of the pool tasks. An
  exception of the preparation leaves the object as it was: the attributes are
  assigned after the last statement of the preparation that can raise.
\<close>

subsection \<open>A small library, generator and data set\<close>

definition step_randint :: "nat \<Rightarrow> nat \<Rightarrow> nat list \<times> nat" where
  "step_randint g n = (replicate n (g mod n), Suc g)"

definition first_label_sel :: selector where
  "first_label_sel d l k =
     (case l of
        Arr1 (x # xs) \<Rightarrow> (Inr [if x = 0 then 0 else 1], d, l)
      | _ \<Rightarrow> (Inl (OracleError ''empty sample''), d, l))"

definition const_sel :: selector where
  "const_sel d l k = (Inr [0], d, l)"

definition toy_lib :: "string \<rightharpoonup> selector" where
  "toy_lib = [''JMI'' \<mapsto> first_label_sel, ''MIM'' \<mapsto> const_sel]"

definition toy_world :: "nat world" where
  "toy_world =
     \<lparr>rng = 0, heap = (\<lambda>a. if a = 0 then Arr2 2 [[1, 0], [0, 1]] else Arr1 [0, 1]),
      next_addr = 2, n_samples = 0, n_calls = 0\<rparr>"

text \<open>
  Concrete inputs for the examples below. The generator state is a counter: the draw in
  state \<open>g\<close> is \<open>n\<close> times the row \<open>g mod n\<close>. \<open>first_label_sel\<close> selects feature 0 or
  feature 1 according to the first label of the sample, \<open>const_sel\<close> always selects
  feature 0. The data set has two observations of two features, at address 0, and
  the labels \<open>[0, 1]\<close>, at address 1.
\<close>

definition state_after :: "('g \<Rightarrow> nat \<Rightarrow> nat list \<times> 'g) \<Rightarrow> nat \<Rightarrow> 'g \<Rightarrow> nat \<Rightarrow> 'g" where
  "state_after randint n g x = ((\<lambda>s. snd (randint s n)) ^^ x) g"

text \<open>
  The state of a generator that started in \<open>g\<close>, after \<open>x\<close> draws of \<open>n\<close> indices:
  the state in which a sequential run starts its trial number \<open>x\<close>.
\<close>

subsection \<open>The binomial distribution function, term by term\<close>

fun cdf_iter :: "nat \<Rightarrow> rat \<Rightarrow> nat \<Rightarrow> rat \<times> rat" where
  "cdf_iter n p 0 = ((1 - p) ^ n, (1 - p) ^ n)"
| "cdf_iter n p (Suc k) =
     (case cdf_iter n p k of
        (t, s) \<Rightarrow> (t * (of_nat (n - k) / of_nat (Suc k)) * (p / (1 - p)),
                   s + t * (of_nat (n - k) / of_nat (Suc k)) * (p / (1 - p))))"

text \<open>
  \<open>cdf_iter n p k\<close> computes the pair of \<open>binom_pmf n p k\<close> and \<open>binom_cdf n p k\<close>
  from the ratio of consecutive terms; it serves to evaluate the distribution
  function at large arguments.
\<close>

section \<open>Properties\<close>

subsection \<open>Facts about the binomial distribution function\<close>

lemma choose_step: "Suc k * (n choose Suc k) = (n - k) * (n choose k)"
  by (simp only: binomial_absorption binomial_absorb_comp)

lemma pmf_step:
  assumes "p \<noteq> 1" "k < n"
  shows "binom_pmf n p (Suc k) = binom_pmf n p k * (of_nat (n - k) / of_nat (Suc k)) * (p / (1 - p))"
proof -
  have "of_nat (Suc k) * (of_nat (n choose Suc k) :: rat) = of_nat (n - k) * of_nat (n choose k)"
    using choose_step [of k n] by (metis of_nat_mult)
  then have c: "(of_nat (n choose Suc k) :: rat) = of_nat (n choose k) * (of_nat (n - k) / of_nat (Suc k))"
    by (simp add: field_simps del: of_nat_Suc)
  have d: "(1 - p) ^ (n - k) = (1 - p) ^ (n - Suc k) * (1 - p)"
    using assms(2) by (metis Suc_diff_Suc power_Suc2)
  have e: "1 - p \<noteq> 0" using assms(1) by simp
  show ?thesis
    unfolding binom_pmf_def c d using e by simp
qed

lemma cdf_iter_eq: "p \<noteq> 1 \<Longrightarrow> k \<le> n \<Longrightarrow> cdf_iter n p k = (binom_pmf n p k, binom_cdf n p k)"
proof (induction k)
  case 0
  then show ?case by (simp add: binom_pmf_def)
next
  case (Suc k)
  then show ?case by (simp add: pmf_step del: of_nat_Suc)
qed

lemma cdf_iter_numeral:
  "cdf_iter n p (numeral v) =
     (case cdf_iter n p (pred_numeral v) of
        (t, s) \<Rightarrow> (t * (of_nat (n - pred_numeral v) / of_nat (numeral v)) * (p / (1 - p)),
                   s + t * (of_nat (n - pred_numeral v) / of_nat (numeral v)) * (p / (1 - p))))"
  by (simp add: numeral_eq_Suc del: of_nat_Suc)

lemma binom_pmf_nonneg: "0 \<le> p \<Longrightarrow> p \<le> 1 \<Longrightarrow> 0 \<le> binom_pmf n p k"
  by (simp add: binom_pmf_def)

lemma binom_cdf_mono: "0 \<le> p \<Longrightarrow> p \<le> 1 \<Longrightarrow> j \<le> k \<Longrightarrow> binom_cdf n p j \<le> binom_cdf n p k"
proof (induction k)
  case 0
  then show ?case by simp
next
  case (Suc k)
  show ?case
  proof (cases "j = Suc k")
    case True
    then show ?thesis by simp
  next
    case False
    with Suc.prems have "j \<le> k" by simp
    with Suc have "binom_cdf n p j \<le> binom_cdf n p k" by simp
    moreover have "0 \<le> binom_pmf n p (Suc k)"
      using Suc.prems by (simp add: binom_pmf_nonneg)
    ultimately show ?thesis by simp
  qed
qed

lemma binom_cdf_sum: "binom_cdf n p k = (\<Sum>i\<le>k. binom_pmf n p i)"
  by (induction k) simp_all

lemma binom_cdf_total: "binom_cdf n p n = 1"
proof -
  have "(p + (1 - p)) ^ n = (\<Sum>i\<le>n. of_nat (n choose i) * p ^ i * (1 - p) ^ (n - i))"
    by (rule binomial_ring)
  then show ?thesis
    by (simp add: binom_cdf_sum binom_pmf_def)
qed

lemma binom_cdf_pred:
  assumes "0 < n"
  shows "binom_cdf n p n = binom_cdf n p (n - 1) + p ^ n"
proof -
  from assms obtain m where m: "n = Suc m" by (cases n) auto
  show ?thesis by (simp add: m binom_pmf_def)
qed

lemma binom_pmf_beyond: "n < k \<Longrightarrow> binom_pmf n p k = 0"
  by (simp add: binom_pmf_def)

lemma binom_cdf_beyond: "n \<le> k \<Longrightarrow> binom_cdf n p k = 1"
proof (induction k)
  case 0
  then show ?case using binom_cdf_total [of 0 p] by simp
next
  case (Suc k)
  show ?case
  proof (cases "n = Suc k")
    case True
    then show ?thesis using binom_cdf_total [of n p] by simp
  next
    case False
    with Suc.prems have "n \<le> k" "n < Suc k" by simp_all
    with Suc.IH show ?thesis by (simp add: binom_pmf_beyond)
  qed
qed

lemma binom_cdf_certain: "k < n \<Longrightarrow> binom_cdf n 1 k = 0"
  by (induction k) (simp_all add: binom_pmf_def)

text \<open>For evaluation, the distribution function is computed term by term.\<close>

lemma binom_cdf_code [code]:
  "binom_cdf n p k = (if n \<le> k then 1 else if p = 1 then 0 else snd (cdf_iter n p k))"
  by (simp add: binom_cdf_beyond binom_cdf_certain cdf_iter_eq)

lemma ppf_from_range: "k0 \<le> ppf_from q n p f k0 \<and> ppf_from q n p f k0 \<le> k0 + f"
proof (induction f arbitrary: k0)
  case 0
  then show ?case by simp
next
  case (Suc f)
  from Suc [of "Suc k0"] show ?case by auto
qed

lemma ppf_from_lt:
  "ppf_from q n p f k0 < k0 + f \<longleftrightarrow> (\<exists>j. k0 \<le> j \<and> j < k0 + f \<and> q \<le> binom_cdf n p j)"
proof (induction f arbitrary: k0)
  case 0
  then show ?case by simp
next
  case (Suc f)
  show ?case
  proof (cases "q \<le> binom_cdf n p k0")
    case True
    then show ?thesis by auto
  next
    case False
    have "(\<exists>j. k0 \<le> j \<and> j < k0 + Suc f \<and> q \<le> binom_cdf n p j)
        \<longleftrightarrow> (\<exists>j. Suc k0 \<le> j \<and> j < Suc k0 + f \<and> q \<le> binom_cdf n p j)"
      using False by (metis Suc_leI add_Suc add_Suc_right le_neq_implies_less Suc_leD)
    with Suc [of "Suc k0"] False show ?thesis by simp
  qed
qed

lemma ppf_from_least:
  assumes "q \<le> binom_cdf n p k" and "\<And>j. k0 \<le> j \<Longrightarrow> j < k \<Longrightarrow> \<not> q \<le> binom_cdf n p j"
    and "k0 \<le> k" and "k \<le> k0 + f"
  shows "ppf_from q n p f k0 = k"
  using assms
proof (induction f arbitrary: k0)
  case 0
  then show ?case by simp
next
  case (Suc f)
  show ?case
  proof (cases "k0 = k")
    case True
    with Suc.prems show ?thesis by simp
  next
    case False
    with Suc.prems have lt: "k0 < k" by simp
    then have "\<not> q \<le> binom_cdf n p k0" using Suc.prems(2) by simp
    moreover have "ppf_from q n p f (Suc k0) = k"
      using Suc.prems lt by (intro Suc.IH) auto
    ultimately show ?thesis by simp
  qed
qed

lemma cdf_100_40: "binom_cdf 100 (3 / 10) 40 < 99 / 100"
proof -
  have "snd (cdf_iter 100 (3 / 10) 40) < 99 / 100"
    apply (simp add: cdf_iter_numeral)
    apply (simp add: power_divide)
    done
  then show ?thesis by (simp add: cdf_iter_eq)
qed

lemma cdf_100_41: "99 / 100 \<le> binom_cdf 100 (3 / 10) 41"
proof -
  have "99 / 100 \<le> snd (cdf_iter 100 (3 / 10) 41)"
    apply (simp add: cdf_iter_numeral)
    apply (simp add: power_divide)
    done
  then show ?thesis by (simp add: cdf_iter_eq)
qed

lemma ppf_100: "ppf_from (99 / 100) 100 (3 / 10) 100 0 = 41"
proof (rule ppf_from_least)
  show "99 / 100 \<le> binom_cdf 100 (3 / 10) 41" by (rule cdf_100_41)
next
  fix j :: nat assume "j < 41"
  then have "binom_cdf 100 (3 / 10) j \<le> binom_cdf 100 (3 / 10) 40"
    by (intro binom_cdf_mono) auto
  with cdf_100_40 show "\<not> 99 / 100 \<le> binom_cdf 100 (3 / 10) j" by simp
qed simp_all

text \<open>
  Claim C7. With ten features, \<open>n_select = 3\<close>, one hundred bootstraps,
  \<open>alpha = 0.01\<close> and \<open>beta = 0\<close>, the probability under the null hypothesis is
  \<open>p = 0.3\<close> and the threshold that \<open>fit\<close> computes is the 0.99 quantile of the
  binomial distribution with parameters 100 and 0.3, which is 41.
\<close>

theorem threshold_example:
  "null_prob (npfs_init fs 3 100 (1 / 100) 0 par mi) 10 = 3 / 10 \<and>
   threshold ((npfs_init fs 3 100 (1 / 100) 0 par mi)\<lparr>n_features := Some 10\<rparr>) = Inr (Fin 41)"
  by (simp add: null_prob_def threshold_def attr_def npfs_init_def binom_ppf_def ppf_100)

subsection \<open>What one trial does to the world\<close>

lemma alloc_frame:
  "alloc x w = (a, w') \<Longrightarrow>
     a = next_addr w \<and> next_addr w' = Suc (next_addr w) \<and> heap w' = (heap w)(a := x) \<and>
     rng w' = rng w \<and> n_samples w' = n_samples w \<and> n_calls w' = n_calls w"
  by (auto simp: alloc_def)

lemma boot_iteration_frame:
  assumes "boot_iteration randint self w = (r, w')"
  shows "next_addr w \<le> next_addr w' \<and> (\<forall>a < next_addr w. heap w' a = heap w a)"
  using assms
  by (auto simp: boot_iteration_def attr_def alloc_def Let_def
           split: sum.splits prod.splits option.splits)

lemma boot_iteration_counts:
  assumes "boot_iteration randint self w = (r, w')"
  shows "n_calls w \<le> n_calls w' \<and> n_calls w' \<le> Suc (n_calls w) \<and>
         n_samples w \<le> n_samples w' \<and> n_samples w' \<le> Suc (n_samples w)"
  using assms
  by (auto simp: boot_iteration_def attr_def alloc_def Let_def
           split: sum.splits prod.splits option.splits)

lemma boot_iteration_success:
  assumes "boot_iteration randint self w = (Inr sf, w')"
  shows "n_calls w' = Suc (n_calls w) \<and> n_samples w' = Suc (n_samples w)"
  using assms
  by (auto simp: boot_iteration_def attr_def alloc_def Let_def
           split: sum.splits prod.splits option.splits)


subsection \<open>The loops: frame and counters\<close>

lemma seq_loop_frame:
  "seq_loop randint self bs Z w = (r, w') \<Longrightarrow>
     next_addr w \<le> next_addr w' \<and> (\<forall>a < next_addr w. heap w' a = heap w a)"
proof (induction bs arbitrary: Z w)
  case Nil
  then show ?case by simp
next
  case (Cons b bs)
  obtain r1 w1 where b1: "boot_iteration randint self w = (r1, w1)" by (cases "boot_iteration randint self w")
  note f1 = boot_iteration_frame [OF b1]
  show ?case
  proof (cases r1)
    case (Inl e)
    with Cons.prems b1 f1 show ?thesis by simp
  next
    case (Inr sf)
    show ?thesis
    proof (cases "mark Z sf b")
      case (Inl e)
      with Cons.prems b1 f1 Inr show ?thesis by simp
    next
      case (Inr Z1)
      with Cons.prems b1 \<open>r1 = Inr sf\<close> have "seq_loop randint self bs Z1 w1 = (r, w')" by simp
      from Cons.IH [OF this] f1 show ?thesis by auto
    qed
  qed
qed


lemma es_loop_frame:
  "es_loop randint self bs Z p1_old w = (r, w') \<Longrightarrow>
     next_addr w \<le> next_addr w' \<and> (\<forall>a < next_addr w. heap w' a = heap w a)"
proof (induction bs arbitrary: Z p1_old w)
  case Nil
  then show ?case by simp
next
  case (Cons b bs)
  obtain r1 w1 where b1: "boot_iteration randint self w = (r1, w1)" by (cases "boot_iteration randint self w")
  note f1 = boot_iteration_frame [OF b1]
  show ?case
  proof (cases r1)
    case (Inl e)
    with Cons.prems b1 f1 show ?thesis by simp
  next
    case (Inr sf)
    show ?thesis
    proof (cases "mark Z sf b")
      case (Inl e)
      with Cons.prems b1 f1 Inr show ?thesis by simp
    next
      case (Inr Z1)
      show ?thesis
      proof (cases "flt (mean_abs_change (running_freq Z1 b) p1_old) (Fin (min_improv self))")
        case True
        with Cons.prems b1 \<open>r1 = Inr sf\<close> Inr f1 show ?thesis by (simp add: Let_def)
      next
        case False
        with Cons.prems b1 \<open>r1 = Inr sf\<close> Inr
        have "es_loop randint self bs Z1 (running_freq Z1 b) w1 = (r, w')" by (simp add: Let_def)
        from Cons.IH [OF this] f1 show ?thesis by auto
      qed
    qed
  qed
qed

lemma es_loop_stop:
  "es_loop randint self bs Z p1_old w = (Inr (Z', Some b), w') \<Longrightarrow>
     \<exists>i < length bs. bs ! i = b \<and> n_calls w' = n_calls w + Suc i \<and> n_samples w' = n_samples w + Suc i"
proof (induction bs arbitrary: Z p1_old w)
  case Nil
  then show ?case by simp
next
  case (Cons c bs)
  from Cons.prems obtain sf w1 Z1 where
    b1: "boot_iteration randint self w = (Inr sf, w1)" and
    m1: "mark Z sf c = Inr Z1"
    by (auto split: prod.splits sum.splits)
  note s1 = boot_iteration_success [OF b1]
  show ?case
  proof (cases "flt (mean_abs_change (running_freq Z1 c) p1_old) (Fin (min_improv self))")
    case True
    with Cons.prems b1 m1 have "b = c" "w' = w1" by (simp_all add: Let_def)
    with s1 have "0 < length (c # bs) \<and> (c # bs) ! 0 = b \<and> n_calls w' = n_calls w + Suc 0
        \<and> n_samples w' = n_samples w + Suc 0" by simp
    then show ?thesis by blast
  next
    case False
    with Cons.prems b1 m1
    have "es_loop randint self bs Z1 (running_freq Z1 c) w1 = (Inr (Z', Some b), w')"
      by (simp add: Let_def)
    from Cons.IH [OF this] obtain i where
      i: "i < length bs" "bs ! i = b" "n_calls w' = n_calls w1 + Suc i" "n_samples w' = n_samples w1 + Suc i"
      by blast
    with s1 have "Suc i < length (c # bs) \<and> (c # bs) ! Suc i = b \<and> n_calls w' = n_calls w + Suc (Suc i)
        \<and> n_samples w' = n_samples w + Suc (Suc i)" by simp
    then show ?thesis by blast
  qed
qed

lemma es_loop_complete:
  "es_loop randint self bs Z p1_old w = (Inr (Z', None), w') \<Longrightarrow>
     n_calls w' = n_calls w + length bs \<and> n_samples w' = n_samples w + length bs"
proof (induction bs arbitrary: Z p1_old w)
  case Nil
  then show ?case by simp
next
  case (Cons c bs)
  from Cons.prems obtain sf w1 Z1 where
    b1: "boot_iteration randint self w = (Inr sf, w1)" and
    m1: "mark Z sf c = Inr Z1"
    by (auto split: prod.splits sum.splits)
  note s1 = boot_iteration_success [OF b1]
  have nostop: "\<not> flt (mean_abs_change (running_freq Z1 c) p1_old) (Fin (min_improv self))"
    using Cons.prems b1 m1 by (auto simp: Let_def split: if_splits)
  with Cons.prems b1 m1
  have "es_loop randint self bs Z1 (running_freq Z1 c) w1 = (Inr (Z', None), w')"
    by (simp add: Let_def)
  from Cons.IH [OF this] s1 show ?case by simp
qed


lemma mark_shape:
  assumes "mark Z sf b = Inr Z'"
  shows "length Z' = length Z \<and> map length Z' = map length Z"
proof -
  have "length (fold (\<lambda>j Y. Y[j := (Y ! j)[b := 1]]) js Y) = length Y \<and>
        map length (fold (\<lambda>j Y. Y[j := (Y ! j)[b := 1]]) js Y) = map length Y"
    for js :: "nat list" and Y :: "nat list list"
  proof (induction js arbitrary: Y)
    case Nil
    then show ?case by simp
  next
    case (Cons j js)
    have "map length (Y[j := (Y ! j)[b := 1]]) = map length Y"
    proof (cases "j < length Y")
      case True
      then have "(map length Y)[j := length (Y ! j)] = map length Y"
        by (metis list_update_id nth_map)
      then show ?thesis by (simp add: map_update)
    next
      case False
      then show ?thesis by (simp add: list_update_beyond)
    qed
    with Cons [of "Y[j := (Y ! j)[b := 1]]"] show ?case by simp
  qed
  with assms show ?thesis by (auto simp: mark_def split: sum.splits)
qed

lemma seq_loop_shape:
  "seq_loop randint self bs Z w = (Inr Z', w') \<Longrightarrow>
     length Z' = length Z \<and> map length Z' = map length Z"
proof (induction bs arbitrary: Z w)
  case Nil
  then show ?case by simp
next
  case (Cons b bs)
  from Cons.prems obtain sf w1 Z1 where
    m1: "mark Z sf b = Inr Z1" and
    rest: "seq_loop randint self bs Z1 w1 = (Inr Z', w')"
    by (auto split: prod.splits sum.splits)
  from Cons.IH [OF rest] mark_shape [OF m1] show ?case by simp
qed

lemma es_loop_shape:
  "es_loop randint self bs Z p1_old w = (Inr (Z', rt), w') \<Longrightarrow>
     length Z' = length Z \<and> map length Z' = map length Z"
proof (induction bs arbitrary: Z p1_old w)
  case Nil
  then show ?case by simp
next
  case (Cons c bs)
  from Cons.prems obtain sf w1 Z1 where
    b1: "boot_iteration randint self w = (Inr sf, w1)" and
    m1: "mark Z sf c = Inr Z1"
    by (auto split: prod.splits sum.splits)
  note sh = mark_shape [OF m1]
  show ?case
  proof (cases "flt (mean_abs_change (running_freq Z1 c) p1_old) (Fin (min_improv self))")
    case True
    with Cons.prems b1 m1 have "Z' = Z1" by (simp add: Let_def)
    with sh show ?thesis by simp
  next
    case False
    with Cons.prems b1 m1
    have "es_loop randint self bs Z1 (running_freq Z1 c) w1 = (Inr (Z', rt), w')"
      by (simp add: Let_def)
    from Cons.IH [OF this] sh show ?thesis by simp
  qed
qed

lemma assemble_shape:
  "assemble sfs x Z = Inr Z' \<Longrightarrow> length Z' = length Z \<and> map length Z' = map length Z"
proof (induction sfs arbitrary: x Z)
  case Nil
  then show ?case by simp
next
  case (Cons sf sfs)
  from Cons.prems obtain Z1 where
    m1: "mark Z sf x = Inr Z1" and rest: "assemble sfs (Suc x) Z1 = Inr Z'"
    by (auto split: sum.splits)
  from Cons.IH [OF rest] mark_shape [OF m1] show ?case by simp
qed

subsection \<open>The pool\<close>


lemma collect_map_Inr: "collect (map Inr xs) = Inr xs"
  by (induction xs) simp_all


lemma pool_map_frame:
  "pool_map randint wstate self n w = (r, w') \<Longrightarrow>
     heap w' = heap w \<and> next_addr w' = next_addr w \<and> rng w' = rng w"
  by (auto simp: pool_map_def Let_def)


subsection \<open>\<open>run_trials\<close>\<close>

lemma run_trials_elim:
  assumes "run_trials randint wstate self Z w = (r, self', w')"
  obtains
    (seq) "parallel self = None" "\<not> early_stopping self" "self' = self"
      "seq_loop randint self [0..<n_bootstraps self] Z w = (r, w')"
  | (noattr) "parallel self = None" "early_stopping self" "n_features self = None"
      "r = Inl (AttributeError ''n_features'')" "self' = self" "w' = w"
  | (es_err) nf e where "parallel self = None" "early_stopping self" "n_features self = Some nf"
      "es_loop randint self [0..<n_bootstraps self] Z (replicate nf (Fin 0)) w = (Inl e, w')"
      "r = Inl e" "self' = self"
  | (es_full) nf Z' where "parallel self = None" "early_stopping self" "n_features self = Some nf"
      "es_loop randint self [0..<n_bootstraps self] Z (replicate nf (Fin 0)) w = (Inr (Z', None), w')"
      "r = Inr Z'" "self' = self"
  | (es_stop) nf Z' b where "parallel self = None" "early_stopping self" "n_features self = Some nf"
      "es_loop randint self [0..<n_bootstraps self] Z (replicate nf (Fin 0)) w = (Inr (Z', Some b), w')"
      "r = Inr Z'" "self' = self\<lparr>run_time := Some b\<rparr>"
  | (pool0) "parallel self = Some 0" "r = Inl PoolValueError" "self' = self" "w' = w"
  | (pool_err) k e where "parallel self = Some k" "0 < k"
      "pool_map randint wstate self (n_bootstraps self) w = (Inl e, w')" "r = Inl e" "self' = self"
  | (asm_err) k sfs e where "parallel self = Some k" "0 < k"
      "pool_map randint wstate self (n_bootstraps self) w = (Inr sfs, w')"
      "assemble sfs 0 Z = Inl e" "r = Inl e" "self' = self"
  | (pool_ok) k sfs Z' where "parallel self = Some k" "0 < k"
      "pool_map randint wstate self (n_bootstraps self) w = (Inr sfs, w')"
      "assemble sfs 0 Z = Inr Z'" "r = Inr Z'" "self' = self"
proof (cases "parallel self")
  case None
  show ?thesis
  proof (cases "early_stopping self")
    case False
    obtain r0 w0 where s: "seq_loop randint self [0..<n_bootstraps self] Z w = (r0, w0)"
      by (cases "seq_loop randint self [0..<n_bootstraps self] Z w")
    with None False assms have "r = r0" "self' = self" "w' = w0"
      by (simp_all add: run_trials_def)
    with None False s show ?thesis by (intro seq) simp_all
  next
    case True
    show ?thesis
    proof (cases "n_features self")
      case nonef: None
      with None True assms have "r = Inl (AttributeError ''n_features'')" "self' = self" "w' = w"
        by (simp_all add: run_trials_def attr_def)
      with None True nonef show ?thesis by (intro noattr) simp_all
    next
      case (Some nf)
      obtain r0 w0 where
        s: "es_loop randint self [0..<n_bootstraps self] Z (replicate nf (Fin 0)) w = (r0, w0)"
        by (cases "es_loop randint self [0..<n_bootstraps self] Z (replicate nf (Fin 0)) w")
      show ?thesis
      proof (cases r0)
        case (Inl e)
        with None True Some s assms have "r = Inl e" "self' = self" "w' = w0"
          by (simp_all add: run_trials_def attr_def)
        with None True Some s Inl show ?thesis by (intro es_err [of nf e]) simp_all
      next
        case (Inr y)
        obtain Z1 rt where y: "y = (Z1, rt)" by (cases y)
        show ?thesis
        proof (cases rt)
          case nonert: None
          with None True Some s assms Inr y have "r = Inr Z1" "self' = self" "w' = w0"
            by (simp_all add: run_trials_def attr_def)
          with None True Some s Inr y nonert show ?thesis by (intro es_full [of nf Z1]) simp_all
        next
          case (Some b)
          with None True \<open>n_features self = Some nf\<close> s assms Inr y
          have "r = Inr Z1" "self' = self\<lparr>run_time := Some b\<rparr>" "w' = w0"
            by (simp_all add: run_trials_def attr_def)
          with None True \<open>n_features self = Some nf\<close> s Inr y Some show ?thesis
            by (intro es_stop [of nf Z1 b]) simp_all
        qed
      qed
    qed
  qed
next
  case (Some k)
  show ?thesis
  proof (cases "k = 0")
    case True
    with Some assms have "r = Inl PoolValueError" "self' = self" "w' = w"
      by (simp_all add: run_trials_def)
    with Some True show ?thesis by (intro pool0) simp_all
  next
    case False
    obtain r0 w0 where s: "pool_map randint wstate self (n_bootstraps self) w = (r0, w0)"
      by (cases "pool_map randint wstate self (n_bootstraps self) w")
    show ?thesis
    proof (cases r0)
      case (Inl e)
      with Some False s assms have "r = Inl e" "self' = self" "w' = w0"
        by (simp_all add: run_trials_def)
      with Some False s Inl show ?thesis by (intro pool_err [of k e]) simp_all
    next
      case (Inr sfs)
      show ?thesis
      proof (cases "assemble sfs 0 Z")
        case (Inl e)
        with Some False s assms Inr have "r = Inl e" "self' = self" "w' = w0"
          by (simp_all add: run_trials_def)
        with Some False s Inr Inl show ?thesis by (intro asm_err [of k sfs e]) simp_all
      next
        case inr2: (Inr Z1)
        with Some False s assms Inr have "r = Inr Z1" "self' = self" "w' = w0"
          by (simp_all add: run_trials_def)
        with Some False s Inr inr2 show ?thesis by (intro pool_ok [of k sfs Z1]) simp_all
      qed
    qed
  qed
qed

lemma run_trials_frame:
  assumes "run_trials randint wstate self Z w = (r, self', w')"
  shows "next_addr w \<le> next_addr w' \<and> (\<forall>a < next_addr w. heap w' a = heap w a)"
  using assms
proof (cases rule: run_trials_elim)
  case seq
  from seq_loop_frame [OF seq(4)] show ?thesis .
next
  case (es_err nf e)
  from es_loop_frame [OF es_err(4)] show ?thesis .
next
  case (es_full nf Z')
  from es_loop_frame [OF es_full(4)] show ?thesis .
next
  case (es_stop nf Z' b)
  from es_loop_frame [OF es_stop(4)] show ?thesis .
next
  case (pool_err k e)
  from pool_map_frame [OF pool_err(3)] show ?thesis by simp
next
  case (asm_err k sfs e)
  from pool_map_frame [OF asm_err(3)] show ?thesis by simp
next
  case (pool_ok k sfs Z')
  from pool_map_frame [OF pool_ok(3)] show ?thesis by simp
qed simp_all

lemma run_trials_self:
  assumes "run_trials randint wstate self Z w = (r, self', w')"
  shows "\<exists>rt. self' = self\<lparr>run_time := rt\<rparr>"
proof -
  have same: "\<exists>rt. self = self\<lparr>run_time := rt\<rparr>"
    by (rule exI [of _ "run_time self"]) simp
  from assms show ?thesis
  proof (cases rule: run_trials_elim)
    case (es_stop nf Z' b)
    then show ?thesis by blast
  qed (use same in simp_all)
qed


lemma run_trials_shape:
  assumes "run_trials randint wstate self Z w = (Inr Z', self', w')"
  shows "length Z' = length Z \<and> map length Z' = map length Z"
  using assms
proof (cases rule: run_trials_elim)
  case seq
  from seq_loop_shape [OF seq(4)] show ?thesis .
next
  case (es_full nf Z1)
  with es_loop_shape [OF es_full(4)] show ?thesis by simp
next
  case (es_stop nf Z1 b)
  with es_loop_shape [OF es_stop(4)] show ?thesis by simp
next
  case (pool_ok k sfs Z1)
  with assemble_shape [OF pool_ok(4)] show ?thesis by simp
qed simp_all


subsection \<open>Validation and preparation\<close>

lemma check_data_frame:
  assumes "check_data dat lab w = (r, w1)"
  shows "next_addr w \<le> next_addr w1 \<and> (\<forall>a < next_addr w. heap w1 a = heap w a) \<and>
         n_calls w1 = n_calls w \<and> n_samples w1 = n_samples w \<and> rng w1 = rng w"
  using assms
  by (auto simp: check_data_def alloc_def Let_def split: pyobj.splits if_splits)

lemma check_data_copies:
  assumes "check_data dat lab w = (Inr (d, l), w1)"
  shows "d = next_addr w \<and> l = Suc (next_addr w) \<and> next_addr w1 = Suc (Suc (next_addr w))"
  using assms
  by (auto simp: check_data_def alloc_def Let_def split: pyobj.splits if_splits)

lemma fit_prepare_frame:
  assumes "fit_prepare lib self dat lab w = (r, w1)"
  shows "next_addr w \<le> next_addr w1 \<and> (\<forall>a < next_addr w. heap w1 a = heap w a) \<and>
         n_calls w1 = n_calls w \<and> n_samples w1 = n_samples w \<and> rng w1 = rng w"
proof -
  obtain r0 w0 where c: "check_data dat lab w = (r0, w0)" by (cases "check_data dat lab w")
  with assms have "w1 = w0"
    by (auto simp: fit_prepare_def Let_def split: sum.splits prod.splits)
  with check_data_frame [OF c] show ?thesis by simp
qed

lemma fit_prepare_ok:
  assumes "fit_prepare lib self dat lab w = (Inr (self2, Z), w1)"
  shows "\<exists>d l f. check_data dat lab w = (Inr (d, l), w1) \<and> lib (fs_method self) = Some f \<and>
           self2 = self\<lparr>n_observations := Some (len (heap w1 d)),
                        n_features := Some (len_transpose (heap w1 d)),
                        method_fn := Some f, data := Some d, labels := Some l\<rparr> \<and>
           Z = zeros (len_transpose (heap w1 d)) (n_bootstraps self)"
  using assms
  by (auto simp: fit_prepare_def resolve_def getattr_feast_def Let_def
           split: sum.splits prod.splits option.splits if_splits)

lemma fit_elim:
  assumes "fit lib randint wstate self dat lab w = (r, self', w')"
  obtains
    (prep) e where "fit_prepare lib self dat lab w = (Inl e, w')" "r = Inl e" "self' = self"
  | (trial) self2 Z w1 e where "fit_prepare lib self dat lab w = (Inr (self2, Z), w1)"
      "run_trials randint wstate self2 Z w1 = (Inl e, self', w')" "r = Inl e"
  | (thresh) self2 Z w1 Z' self3 e where "fit_prepare lib self dat lab w = (Inr (self2, Z), w1)"
      "run_trials randint wstate self2 Z w1 = (Inr Z', self3, w')"
      "fit_finish self3 Z' = Inl e" "r = Inl e" "self' = self3"
  | (ok) self2 Z w1 Z' self3 sel where "fit_prepare lib self dat lab w = (Inr (self2, Z), w1)"
      "run_trials randint wstate self2 Z w1 = (Inr Z', self3, w')"
      "fit_finish self3 Z' = Inr (sel, self')" "r = Inr sel"
proof -
  obtain r0 w0 where p: "fit_prepare lib self dat lab w = (r0, w0)"
    by (cases "fit_prepare lib self dat lab w")
  show ?thesis
  proof (cases r0)
    case (Inl e)
    with p assms have "r = Inl e" "self' = self" "w' = w0" by (simp_all add: fit_def)
    with p Inl show ?thesis by (intro prep [of e]) simp_all
  next
    case (Inr y)
    obtain self2 Z where y: "y = (self2, Z)" by (cases y)
    obtain r1 self3 w2 where t: "run_trials randint wstate self2 Z w0 = (r1, self3, w2)"
      by (cases "run_trials randint wstate self2 Z w0")
    show ?thesis
    proof (cases r1)
      case (Inl e)
      with p assms Inr y t have "r = Inl e" "self' = self3" "w' = w2" by (simp_all add: fit_def)
      with p Inr y t Inl show ?thesis by (intro trial [of self2 Z w0 e]) simp_all
    next
      case inr1: (Inr Z')
      show ?thesis
      proof (cases "fit_finish self3 Z'")
        case (Inl e)
        with p assms Inr y t inr1 have "r = Inl e" "self' = self3" "w' = w2"
          by (simp_all add: fit_def)
        with p Inr y t inr1 Inl show ?thesis by (intro thresh [of self2 Z w0 Z' self3 e]) simp_all
      next
        case inr2: (Inr u)
        obtain sel self4 where u: "u = (sel, self4)" by (cases u)
        with p assms Inr y t inr1 inr2 have "r = Inr sel" "self' = self4" "w' = w2"
          by (simp_all add: fit_def)
        with p Inr y t inr1 inr2 u show ?thesis by (intro ok [of self2 Z w0 Z' self3 sel]) simp_all
      qed
    qed
  qed
qed

lemma fit_finish_ok:
  assumes "fit_finish self Z = Inr (sel, self')"
  shows "\<exists>delta nf. threshold self = Inr delta \<and> n_features self = Some nf \<and>
           sel = select_features (row_sums Z) delta nf \<and>
           self' = self\<lparr>Bernoulli_matrix := Some Z, selected_features := sel\<rparr>"
  using assms
  by (auto simp: fit_finish_def attr_def Let_def split: sum.splits option.splits)

subsection \<open>Properties of \<open>fit\<close>\<close>


text \<open>
  Claim C10. \<open>fit\<close> never writes into an array that existed before the call, so the
  data and labels arrays of the caller are unchanged, whatever the outcome; and after
  a successful call the attributes \<open>data\<close> and \<open>labels\<close> of the object refer to arrays
  that \<open>__check_data\<close> has newly created.
\<close>

theorem fit_leaves_caller_arrays:
  assumes "fit lib randint wstate self dat lab w = (r, self', w')" and "a < next_addr w"
  shows "heap w' a = heap w a \<and>
         (\<forall>sel. r = Inr sel \<longrightarrow>
            (\<exists>d l. data self' = Some d \<and> labels self' = Some l \<and>
                   next_addr w \<le> d \<and> next_addr w \<le> l))"
  using assms(1)
proof (cases rule: fit_elim)
  case (prep e)
  from fit_prepare_frame [OF prep(1)] assms(2) prep show ?thesis by simp
next
  case (trial self2 Z w1 e)
  from fit_prepare_frame [OF trial(1)] run_trials_frame [OF trial(2)] assms(2) trial(3)
  show ?thesis by auto
next
  case (thresh self2 Z w1 Z' self3 e)
  from fit_prepare_frame [OF thresh(1)] run_trials_frame [OF thresh(2)] assms(2) thresh(4)
  show ?thesis by auto
next
  case (ok self2 Z w1 Z' self3 sel)
  from fit_prepare_frame [OF ok(1)] run_trials_frame [OF ok(2)] assms(2)
  have fr: "heap w' a = heap w a" by auto
  from fit_prepare_ok [OF ok(1)] obtain d l f where
    c: "check_data dat lab w = (Inr (d, l), w1)" and
    s2: "data self2 = Some d" "labels self2 = Some l"
    by auto
  from run_trials_self [OF ok(2)] obtain rt where "self3 = self2\<lparr>run_time := rt\<rparr>" by blast
  with fit_finish_ok [OF ok(3)] s2 have "data self' = Some d" "labels self' = Some l"
    by auto
  with check_data_copies [OF c] fr show ?thesis by auto
qed

theorem fit_leaves_caller_arrays_witness:
  "(0::nat) < next_addr toy_world \<and>
   heap (snd (snd (fit toy_lib step_randint (\<lambda>x. 0) (npfs_init ''JMI'' 1 2 (1 / 100) 0 None 0)
          (Ndarray 0) (Ndarray 1) toy_world))) 0 = Arr2 2 [[1, 0], [0, 1]]"
proof -
  have a: "(0::nat) < next_addr toy_world" by (simp add: toy_world_def)
  obtain r s w' where f: "fit toy_lib step_randint (\<lambda>x. 0) (npfs_init ''JMI'' 1 2 (1 / 100) 0 None 0)
          (Ndarray 0) (Ndarray 1) toy_world = (r, s, w')"
    by (cases "fit toy_lib step_randint (\<lambda>x. 0) (npfs_init ''JMI'' 1 2 (1 / 100) 0 None 0)
          (Ndarray 0) (Ndarray 1) toy_world")
  from fit_leaves_caller_arrays [OF f a] have "heap w' 0 = heap toy_world 0" by simp
  with f a show ?thesis by (simp add: toy_world_def)
qed









text \<open>
  Claim C5, as amended. When the convergence test succeeds at the loop index \<open>b\<close>, the
  loop ends at once: exactly \<open>b + 1\<close> trials have been executed, which is at most
  \<open>n_bootstraps\<close> and can be all of them, since the test is also made after the last
  trial.
\<close>

theorem early_stop_trial_count:
  assumes "es_loop randint self [0..<n] Z p1_old w = (Inr (Z', Some b), w')"
  shows "b < n \<and> n_calls w' = n_calls w + Suc b \<and> n_samples w' = n_samples w + Suc b"
proof -
  from es_loop_stop [OF assms] obtain i where
    "i < length [0..<n]" "[0..<n] ! i = b"
    "n_calls w' = n_calls w + Suc i" "n_samples w' = n_samples w + Suc i"
    by blast
  then show ?thesis by simp
qed

theorem early_stop_trial_count_counterexample:
  "n_bootstraps (npfs_init ''MIM'' 1 3 (1 / 5) 0 None (1 / 2)) = 3 \<and>
   fst (fit toy_lib step_randint (\<lambda>x. 0) (npfs_init ''MIM'' 1 3 (1 / 5) 0 None (1 / 2))
          (Ndarray 0) (Ndarray 1) toy_world) = Inr [0] \<and>
   run_time (fst (snd (fit toy_lib step_randint (\<lambda>x. 0) (npfs_init ''MIM'' 1 3 (1 / 5) 0 None (1 / 2))
          (Ndarray 0) (Ndarray 1) toy_world))) = Some 2 \<and>
   n_calls (snd (snd (fit toy_lib step_randint (\<lambda>x. 0) (npfs_init ''MIM'' 1 3 (1 / 5) 0 None (1 / 2))
          (Ndarray 0) (Ndarray 1) toy_world))) = 3"
  by code_simp

theorem early_stop_trial_count_witness:
  "n_calls (snd (es_loop step_randint
       ((npfs_init ''MIM'' 1 3 (1 / 5) 0 None (1 / 2))
          \<lparr>n_observations := Some 2, n_features := Some 2, method_fn := Some const_sel,
           data := Some 0, labels := Some 1\<rparr>)
       [0..<3] (zeros 2 3) [Fin 0, Fin 0] toy_world)) = 3"
proof -
  let ?self = "(npfs_init ''MIM'' 1 3 (1 / 5) 0 None (1 / 2))
          \<lparr>n_observations := Some 2, n_features := Some 2, method_fn := Some const_sel,
           data := Some 0, labels := Some 1\<rparr>"
  have e: "fst (es_loop step_randint ?self [0..<3] (zeros 2 3) [Fin 0, Fin 0] toy_world)
         = Inr ([[1, 1, 1], [0, 0, 0]], Some 2)"
    by code_simp
  obtain r w' where "es_loop step_randint ?self [0..<3] (zeros 2 3) [Fin 0, Fin 0] toy_world = (r, w')"
    by (cases "es_loop step_randint ?self [0..<3] (zeros 2 3) [Fin 0, Fin 0] toy_world")
  with e have f: "es_loop step_randint ?self [0..<3] (zeros 2 3) [Fin 0, Fin 0] toy_world
         = (Inr ([[1, 1, 1], [0, 0, 0]], Some 2), w')"
    by simp
  from early_stop_trial_count [OF f] f show ?thesis by (simp add: toy_world_def)
qed

text \<open>
  Claim C1. A fit with early stopping that stops after three of ten trials: the
  counts are the row sums of the three populated columns, but the threshold is the
  quantile of the binomial distribution with \<open>n_bootstraps = 10\<close> trials, which is 6,
  and not with the three trials that ran, which would give 2. Feature 0, selected in
  all three trials, is not returned.
\<close>

theorem early_stop_threshold:
  "fst (fit toy_lib step_randint (\<lambda>x. 0) (npfs_init ''MIM'' 1 10 (1 / 5) 0 None (1 / 2))
          (Ndarray 0) (Ndarray 1) toy_world) = Inr [] \<and>
   n_calls (snd (snd (fit toy_lib step_randint (\<lambda>x. 0) (npfs_init ''MIM'' 1 10 (1 / 5) 0 None (1 / 2))
          (Ndarray 0) (Ndarray 1) toy_world))) = 3 \<and>
   Bernoulli_matrix (fst (snd (fit toy_lib step_randint (\<lambda>x. 0)
          (npfs_init ''MIM'' 1 10 (1 / 5) 0 None (1 / 2)) (Ndarray 0) (Ndarray 1) toy_world)))
     = Some [[1, 1, 1, 0, 0, 0, 0, 0, 0, 0], [0, 0, 0, 0, 0, 0, 0, 0, 0, 0]] \<and>
   threshold (fst (snd (fit toy_lib step_randint (\<lambda>x. 0)
          (npfs_init ''MIM'' 1 10 (1 / 5) 0 None (1 / 2)) (Ndarray 0) (Ndarray 1) toy_world)))
     = Inr (Fin 6) \<and>
   binom_ppf (1 - 1 / 5) 10 (1 / 2) = Fin 6 \<and>
   binom_ppf (1 - 1 / 5) 3 (1 / 2) = Fin 2"
  by code_simp

subsection \<open>The first trial of the loop with early stopping\<close>

lemma fsub_not_finite: "x = PInf \<or> x = NaN \<Longrightarrow> fabs (fsub x y) = PInf \<or> fabs (fsub x y) = NaN"
  by (cases y) auto

lemma fadd_not_finite: "x = PInf \<or> x = NaN \<Longrightarrow> fabs y = y \<Longrightarrow> fadd x y = PInf \<or> fadd x y = NaN"
  by (cases y) auto

lemma foldr_fadd_abs:
  "(\<And>x. x \<in> set xs \<Longrightarrow> x = PInf \<or> x = NaN) \<Longrightarrow>
     foldr fadd xs (Fin 0) = Fin 0 \<and> xs = [] \<or> foldr fadd xs (Fin 0) = PInf \<or> foldr fadd xs (Fin 0) = NaN"
proof (induction xs)
  case Nil
  then show ?case by simp
next
  case (Cons x xs)
  then have x: "x = PInf \<or> x = NaN" by simp
  from Cons have "foldr fadd xs (Fin 0) = Fin 0 \<or> foldr fadd xs (Fin 0) = PInf \<or> foldr fadd xs (Fin 0) = NaN"
    by auto
  with x show ?case by auto
qed

lemma fmean_not_finite:
  assumes "\<And>x. x \<in> set xs \<Longrightarrow> x = PInf \<or> x = NaN"
  shows "fmean xs = PInf \<or> fmean xs = NaN"
proof (cases "xs = []")
  case True
  then show ?thesis by (simp add: fmean_def)
next
  case False
  from assms have "foldr fadd xs (Fin 0) = Fin 0 \<and> xs = [] \<or>
      foldr fadd xs (Fin 0) = PInf \<or> foldr fadd xs (Fin 0) = NaN"
    by (rule foldr_fadd_abs)
  with False have "foldr fadd xs (Fin 0) = PInf \<or> foldr fadd xs (Fin 0) = NaN" by blast
  with False show ?thesis by (auto simp: fmean_def)
qed

lemma running_freq_0: "running_freq Z 0 = map (\<lambda>s. if s = 0 then NaN else PInf) (row_sums Z)"
  by (simp add: running_freq_def fdiv_count_def)

lemma no_stop_at_0: "\<not> flt (mean_abs_change (running_freq Z 0) p1_old) (Fin mi)"
proof -
  have "x = PInf \<or> x = NaN"
    if "x \<in> set (map (\<lambda>(x, y). fabs (fsub x y)) (zip (running_freq Z 0) p1_old))" for x
  proof -
    from that obtain a b where ab: "(a, b) \<in> set (zip (running_freq Z 0) p1_old)" "x = fabs (fsub a b)"
      by auto
    then have "a \<in> set (running_freq Z 0)" by (auto dest: set_zip_leftD)
    then have "a = PInf \<or> a = NaN" by (auto simp: running_freq_0)
    with fsub_not_finite ab show ?thesis by blast
  qed
  then have "mean_abs_change (running_freq Z 0) p1_old = PInf \<or>
             mean_abs_change (running_freq Z 0) p1_old = NaN"
    unfolding mean_abs_change_def by (rule fmean_not_finite)
  then show ?thesis by auto
qed

text \<open>
  Claim C2. In the first pass of the loop with early stopping \<open>b\<close> is 0, and the
  frequency vector is the row sums divided by \<open>b\<close>: every component is the result of
  a division by zero, \<open>inf\<close> or \<open>nan\<close>. The mean of the changes is then \<open>inf\<close> or
  \<open>nan\<close>, the test \<open>d < min_improv\<close> is false, and the loop goes on with that vector
  as \<open>p1_old\<close>.
\<close>

theorem first_trial_divides_by_zero:
  "running_freq Z 0 = map (\<lambda>s. if s = 0 then NaN else PInf) (row_sums Z) \<and>
   \<not> flt (mean_abs_change (running_freq Z 0) p1_old) (Fin (min_improv self)) \<and>
   es_loop randint self (0 # bs) Z p1_old w =
     (case boot_iteration randint self w of
        (Inl e, w') \<Rightarrow> (Inl e, w')
      | (Inr sf, w') \<Rightarrow>
         (case mark Z sf 0 of
            Inl e \<Rightarrow> (Inl e, w')
          | Inr Z' \<Rightarrow> es_loop randint self bs Z' (running_freq Z' 0) w'))"
  by (simp add: running_freq_0 [symmetric] no_stop_at_0 Let_def split: prod.splits sum.splits)

subsection \<open>A feature selected in every trial\<close>

lemma all_trials_below_threshold_iff:
  assumes "0 < q" and "q < 1" and "0 \<le> p" and "p \<le> 1"
  shows "ppf_from q n p n 0 < n \<longleftrightarrow> p ^ n \<le> 1 - q"
proof (cases "n = 0")
  case True
  with assms show ?thesis by simp
next
  case False
  then have pos: "0 < n" by simp
  have "ppf_from q n p n 0 < n \<longleftrightarrow> (\<exists>j. j < n \<and> q \<le> binom_cdf n p j)"
    using ppf_from_lt [of q n p n 0] by simp
  also have "\<dots> \<longleftrightarrow> q \<le> binom_cdf n p (n - 1)"
  proof
    assume "\<exists>j. j < n \<and> q \<le> binom_cdf n p j"
    then obtain j where j: "j < n" "q \<le> binom_cdf n p j" by blast
    then have "binom_cdf n p j \<le> binom_cdf n p (n - 1)"
      using assms(3,4) by (intro binom_cdf_mono) auto
    with j show "q \<le> binom_cdf n p (n - 1)" by simp
  next
    assume "q \<le> binom_cdf n p (n - 1)"
    with pos show "\<exists>j. j < n \<and> q \<le> binom_cdf n p j"
      by (intro exI [of _ "n - 1"]) simp
  qed
  also have "binom_cdf n p (n - 1) = 1 - p ^ n"
    using binom_cdf_pred [OF pos, of p] binom_cdf_total [of n p] by simp
  finally show ?thesis by auto
qed

text \<open>
  Claim C8, as amended. For \<open>0 < alpha < 1\<close> and a probability \<open>p \<ge> 0\<close> under the
  null hypothesis, a feature that every one of the \<open>n_bootstraps\<close> trials has selected
  is in the output of \<open>fit\<close> exactly when \<open>p ^ n_bootstraps \<le> alpha\<close>: selection in
  every trial must itself be unlikely enough under the null hypothesis.
\<close>

theorem always_selected_feature:
  assumes "fit lib randint wstate self dat lab w = (Inr sel, self', w')"
    and "Bernoulli_matrix self' = Some Z" and "n_features self' = Some nf" and "i < nf"
    and "sum_list (Z ! i) = n_bootstraps self"
    and "0 < alpha self" and "alpha self < 1" and "0 \<le> null_prob self nf"
  shows "i \<in> set sel \<longleftrightarrow> null_prob self nf ^ n_bootstraps self \<le> alpha self"
  using assms(1)
proof (cases rule: fit_elim)
  case (ok self2 Z0 w1 Z' self3 sel0)
  from fit_prepare_ok [OF ok(1)] obtain d where
    s2: "n_features self2 = Some (len_transpose (heap w1 d))"
        "n_select self2 = n_select self" "beta self2 = beta self" "alpha self2 = alpha self"
        "n_bootstraps self2 = n_bootstraps self" and
    z0: "Z0 = zeros (len_transpose (heap w1 d)) (n_bootstraps self)"
    by auto
  from run_trials_self [OF ok(2)] obtain rt where s3: "self3 = self2\<lparr>run_time := rt\<rparr>" by blast
  from fit_finish_ok [OF ok(3)] obtain delta nf' where
    th: "threshold self3 = Inr delta" and nf': "n_features self3 = Some nf'" and
    sel0: "sel0 = select_features (row_sums Z') delta nf'" and
    s4: "self' = self3\<lparr>Bernoulli_matrix := Some Z', selected_features := sel0\<rparr>"
    by blast
  from s4 assms(2,3) nf' have Z: "Z = Z'" and nf: "nf' = nf" by simp_all
  from run_trials_shape [OF ok(2)] z0 s2 s3 nf' nf have len: "length Z' = nf"
    by (simp add: zeros_def)
  have np: "null_prob self3 nf = null_prob self nf"
    using s2 s3 by (simp add: null_prob_def)
  from th nf' nf np s2 s3 have p1: "null_prob self nf \<le> 1"
    and delta: "delta = binom_ppf (1 - alpha self) (n_bootstraps self) (null_prob self nf)"
    by (auto simp: threshold_def attr_def split: if_splits)
  from assms(6,7) have q: "0 < 1 - alpha self" "1 - alpha self < 1" by simp_all
  with delta p1 assms(8) have
    d: "delta = Fin (of_nat (ppf_from (1 - alpha self) (n_bootstraps self) (null_prob self nf)
                               (n_bootstraps self) 0))"
    by (simp add: binom_ppf_def)
  have z: "row_sums Z' ! i = n_bootstraps self"
    using assms(4,5) len Z by (simp add: row_sums_def)
  have "i \<in> set sel \<longleftrightarrow>
        ppf_from (1 - alpha self) (n_bootstraps self) (null_prob self nf) (n_bootstraps self) 0
          < n_bootstraps self"
    using ok(4) sel0 nf assms(4) d z by (simp add: select_features_def)
  also have "\<dots> \<longleftrightarrow> null_prob self nf ^ n_bootstraps self \<le> 1 - (1 - alpha self)"
    using q assms(8) p1 by (rule all_trials_below_threshold_iff)
  finally show ?thesis by simp
qed simp_all

theorem always_selected_feature_counterexample:
  "alpha (npfs_init ''MIM'' 1 1 (1 / 100) 0 None 0) < 1 \<and>
   Bernoulli_matrix (fst (snd (fit toy_lib step_randint (\<lambda>x. 0)
       (npfs_init ''MIM'' 1 1 (1 / 100) 0 None 0) (Ndarray 0) (Ndarray 1) toy_world))) = Some [[1], [0]] \<and>
   sum_list ([[1], [0]] ! 0) = n_bootstraps (npfs_init ''MIM'' 1 1 (1 / 100) 0 None 0) \<and>
   fst (fit toy_lib step_randint (\<lambda>x. 0)
       (npfs_init ''MIM'' 1 1 (1 / 100) 0 None 0) (Ndarray 0) (Ndarray 1) toy_world) = Inr []"
  by code_simp

theorem always_selected_feature_witness:
  "null_prob (npfs_init ''MIM'' 1 3 (1 / 5) 0 None 0) 2
     ^ n_bootstraps (npfs_init ''MIM'' 1 3 (1 / 5) 0 None 0)
   \<le> alpha (npfs_init ''MIM'' 1 3 (1 / 5) 0 None 0)"
proof -
  let ?self = "npfs_init ''MIM'' 1 3 (1 / 5) 0 None 0"
  let ?fit = "fit toy_lib step_randint (\<lambda>x. 0) ?self (Ndarray 0) (Ndarray 1) toy_world"
  have e: "fst ?fit = Inr [0]" by code_simp
  have b: "Bernoulli_matrix (fst (snd ?fit)) = Some [[1, 1, 1], [0, 0, 0]]" by code_simp
  have n: "n_features (fst (snd ?fit)) = Some 2" by code_simp
  obtain r s w' where "?fit = (r, s, w')" by (cases ?fit)
  with e b n have f: "?fit = (Inr [0], s, w')" and bs: "Bernoulli_matrix s = Some [[1, 1, 1], [0, 0, 0]]"
    and ns: "n_features s = Some 2"
    by simp_all
  have i: "(0::nat) < 2" by simp
  have z: "sum_list ([[1, 1, 1], [0, 0, 0]] ! 0) = n_bootstraps ?self" by (simp add: npfs_init_def)
  have a: "0 < alpha ?self" "alpha ?self < 1" by (simp_all add: npfs_init_def)
  have p: "0 \<le> null_prob ?self 2" by (simp add: null_prob_def npfs_init_def)
  from always_selected_feature [OF f bs ns i z a p] show ?thesis by simp
qed

subsection \<open>Sequential and parallel trials\<close>

lemma boot_iteration_result:
  assumes "rng v = rng u" and "heap v d = heap u d" and "heap v l = heap u l"
    and "data self = Some d" and "labels self = Some l"
    and "d < next_addr v" and "l < next_addr v" and "d < next_addr u" and "l < next_addr u"
  shows "fst (boot_iteration randint self v) = fst (boot_iteration randint self u)"
  using assms
  by (auto simp: boot_iteration_def attr_def alloc_def Let_def
           split: sum.splits prod.splits option.splits)

lemma boot_iteration_rng:
  assumes "boot_iteration randint self v = (Inr sf, v')" and "n_observations self = Some nobs"
  shows "rng v' = snd (randint (rng v) nobs)"
  using assms
  by (auto simp: boot_iteration_def attr_def alloc_def Let_def
           split: sum.splits prod.splits option.splits)

lemma boot_iteration_mode:
  "boot_iteration randint (self\<lparr>parallel := par\<rparr>) = boot_iteration randint self"
  "boot_iteration randint (self\<lparr>early_stopping := es\<rparr>) = boot_iteration randint self"
  by (rule ext, simp add: boot_iteration_def Let_def split: sum.splits prod.splits)+

lemma seq_loop_mode:
  assumes "boot_iteration randint s1 = boot_iteration randint s2"
  shows "seq_loop randint s1 bs Z w = seq_loop randint s2 bs Z w"
  using assms
  by (induction bs arbitrary: Z w) (simp_all split: prod.splits sum.splits)

lemma state_after_Suc:
  "state_after randint n g (Suc x) = snd (randint (state_after randint n g x) n)"
  by (simp add: state_after_def)

lemma seq_loop_collect:
  assumes "n_observations self = Some nobs" and "data self = Some d" and "labels self = Some l"
    and "d < next_addr w" and "l < next_addr w"
  shows "rng v = state_after randint nobs (rng w) b0 \<Longrightarrow>
         heap v d = heap w d \<Longrightarrow> heap v l = heap w l \<Longrightarrow> next_addr w \<le> next_addr v \<Longrightarrow>
         (fst (seq_loop randint self [b0..<n] Z v) = Inr Z') =
         (case collect (map (\<lambda>x. fst (boot_iteration randint self
                          (w\<lparr>rng := state_after randint nobs (rng w) x\<rparr>))) [b0..<n]) of
            Inl e \<Rightarrow> False
          | Inr sfs \<Rightarrow> assemble sfs b0 Z = Inr Z')"
proof (induction "n - b0" arbitrary: b0 Z v)
  case 0
  then have "[b0..<n] = []" by simp
  then show ?case by auto
next
  case (Suc m)
  let ?T = "\<lambda>x. fst (boot_iteration randint self (w\<lparr>rng := state_after randint nobs (rng w) x\<rparr>))"
  from Suc.hyps(2) have lt: "b0 < n" and m: "m = n - Suc b0" by simp_all
  then have up: "[b0..<n] = b0 # [Suc b0..<n]" by (simp add: upt_conv_Cons)
  obtain r1 v1 where b1: "boot_iteration randint self v = (r1, v1)"
    by (cases "boot_iteration randint self v")
  have "fst (boot_iteration randint self v) = ?T b0"
    using Suc.prems assms by (intro boot_iteration_result [of _ _ d l]) simp_all
  with b1 have t0: "?T b0 = r1" by simp
  show ?case
  proof (cases r1)
    case (Inl e)
    with b1 t0 up show ?thesis by simp
  next
    case (Inr sf)
    from boot_iteration_rng [OF b1 [unfolded Inr] assms(1)] Suc.prems(1)
    have rng1: "rng v1 = state_after randint nobs (rng w) (Suc b0)"
      by (simp add: state_after_Suc)
    from boot_iteration_frame [OF b1] Suc.prems assms(4,5)
    have fr: "heap v1 d = heap w d" "heap v1 l = heap w l" "next_addr w \<le> next_addr v1"
      by auto
    show ?thesis
    proof (cases "mark Z sf b0")
      case inl2: (Inl e)
      with b1 Inr t0 up show ?thesis by (simp split: sum.splits)
    next
      case (Inr Z1)
      from Suc.hyps(1) [OF m rng1 fr, of Z1]
      have "(fst (seq_loop randint self [Suc b0..<n] Z1 v1) = Inr Z') =
            (case collect (map ?T [Suc b0..<n]) of
               Inl e \<Rightarrow> False | Inr sfs \<Rightarrow> assemble sfs (Suc b0) Z1 = Inr Z')" .
      with b1 \<open>r1 = Inr sf\<close> Inr t0 up show ?thesis by (simp split: sum.splits)
    qed
  qed
qed

text \<open>
  Claim C4, as amended. The parallel mode writes the result of trial \<open>x\<close> into column
  \<open>x\<close>, whichever worker ran it, and it produces the Bernoulli matrix of a sequential
  fit without early stopping whenever every pool task \<open>x\<close> starts from the generator
  state in which the sequential run starts its trial \<open>x\<close>. The program does nothing to
  bring this about: it seeds no generator, so the states of the workers are whatever
  the operating system and the pool make them.
\<close>

theorem parallel_matches_sequential:
  assumes "n_observations self = Some nobs" and "data self = Some d" and "labels self = Some l"
    and "d < next_addr w" and "l < next_addr w"
    and "\<forall>x < n_bootstraps self. wstate x = state_after randint nobs (rng w) x"
    and "0 < k"
  shows "fst (run_trials randint wstate (self\<lparr>parallel := Some k\<rparr>) Z w) = Inr Z' \<longleftrightarrow>
         fst (run_trials randint wstate (self\<lparr>parallel := None, early_stopping := False\<rparr>) Z w) = Inr Z'"
proof -
  let ?n = "n_bootstraps self"
  let ?T = "\<lambda>x. fst (boot_iteration randint self (w\<lparr>rng := state_after randint nobs (rng w) x\<rparr>))"
  have tasks: "map (\<lambda>x. fst (call randint (self\<lparr>parallel := Some k\<rparr>) (w\<lparr>rng := wstate x\<rparr>))) [0..<?n]
             = map ?T [0..<?n]"
    using assms(6) by (simp add: call_def boot_iteration_mode)
  have "fst (pool_map randint wstate (self\<lparr>parallel := Some k\<rparr>) ?n w) =
        collect (map (\<lambda>x. fst (call randint (self\<lparr>parallel := Some k\<rparr>) (w\<lparr>rng := wstate x\<rparr>))) [0..<?n])"
    by (simp add: pool_map_def Let_def o_def)
  also have "\<dots> = collect (map ?T [0..<?n])"
    by (simp only: tasks)
  finally have pool: "fst (pool_map randint wstate (self\<lparr>parallel := Some k\<rparr>) ?n w)
      = collect (map ?T [0..<?n])" .
  have par: "fst (run_trials randint wstate (self\<lparr>parallel := Some k\<rparr>) Z w) = Inr Z' \<longleftrightarrow>
             (case collect (map ?T [0..<?n]) of Inl e \<Rightarrow> False | Inr sfs \<Rightarrow> assemble sfs 0 Z = Inr Z')"
    using assms(7) pool
    by (cases "pool_map randint wstate (self\<lparr>parallel := Some k\<rparr>) ?n w")
       (auto simp: run_trials_def split: sum.splits)
  have "seq_loop randint (self\<lparr>parallel := None, early_stopping := False\<rparr>) [0..<?n] Z w
      = seq_loop randint self [0..<?n] Z w"
    by (rule seq_loop_mode) (simp add: boot_iteration_mode)
  then have seq: "fst (run_trials randint wstate (self\<lparr>parallel := None, early_stopping := False\<rparr>) Z w)
      = fst (seq_loop randint self [0..<?n] Z w)"
    by (simp add: run_trials_def split: prod.splits)
  have "(fst (seq_loop randint self [0..<?n] Z w) = Inr Z') =
        (case collect (map ?T [0..<?n]) of Inl e \<Rightarrow> False | Inr sfs \<Rightarrow> assemble sfs 0 Z = Inr Z')"
    using seq_loop_collect [OF assms(1-5), where v = w and ?b0.0 = 0 and n = ?n and Z = Z and Z' = Z'
                            and randint = randint]
    by (simp add: state_after_def)
  with par seq show ?thesis by simp
qed

theorem parallel_matches_sequential_counterexample:
  "Bernoulli_matrix (fst (snd (fit toy_lib step_randint (\<lambda>x. rng toy_world)
       (npfs_init ''JMI'' 1 2 (1 / 100) 0 None 0) (Ndarray 0) (Ndarray 1) toy_world)))
     = Some [[1, 0], [0, 1]] \<and>
   Bernoulli_matrix (fst (snd (fit toy_lib step_randint (\<lambda>x. rng toy_world)
       (npfs_init ''JMI'' 1 2 (1 / 100) 0 (Some 2) 0) (Ndarray 0) (Ndarray 1) toy_world)))
     = Some [[1, 1], [0, 0]]"
  by code_simp

theorem parallel_matches_sequential_witness:
  "fst (run_trials step_randint (state_after step_randint 2 (rng toy_world))
          ((npfs_init ''JMI'' 1 2 (1 / 100) 0 None 0)
             \<lparr>n_observations := Some 2, n_features := Some 2, method_fn := Some first_label_sel,
              data := Some 0, labels := Some 1, parallel := Some 2\<rparr>)
          (zeros 2 2) toy_world) = Inr [[1, 0], [0, 1]]"
proof -
  let ?self = "(npfs_init ''JMI'' 1 2 (1 / 100) 0 None 0)
             \<lparr>n_observations := Some 2, n_features := Some 2, method_fn := Some first_label_sel,
              data := Some 0, labels := Some 1\<rparr>"
  let ?ws = "state_after step_randint 2 (rng toy_world)"
  have h1: "n_observations ?self = Some 2" and h2: "data ?self = Some 0"
    and h3: "labels ?self = Some 1"
    by simp_all
  have h4: "0 < next_addr toy_world" and h5: "1 < next_addr toy_world"
    by (simp_all add: toy_world_def)
  have h6: "\<forall>x < n_bootstraps ?self. ?ws x = state_after step_randint 2 (rng toy_world) x"
    by simp
  have h7: "(0::nat) < 2" by simp
  have seq: "fst (run_trials step_randint ?ws (?self\<lparr>parallel := None, early_stopping := False\<rparr>)
               (zeros 2 2) toy_world) = Inr [[1, 0], [0, 1]]"
    by code_simp
  from parallel_matches_sequential [OF h1 h2 h3 h4 h5 h6 h7, of "zeros 2 2" "[[1, 0], [0, 1]]"] seq
  show ?thesis by simp
qed

end
